theory Spec2Isabelle
  imports Complex_Main
begin

section \<open>Data model\<close>

text \<open>
  The development follows \<^verbatim>\<open>src/model/size_location.py\<close>. Array elements, pixel
  spacings, centroids and physical sizes are numpy floats in the source; they are
  rationals here, so rounding and overflow of the floating-point operations are not part
  of the model. Pixel counts and coordinates (numpy \<^verbatim>\<open>int32\<close>) are natural numbers.

  A 2-D array is the list of its rows. A pixel is the pair \<open>(x, y)\<close> of its column and
  its row, the order in which OpenCV reports bounding boxes and centroids.
\<close>

type_synonym grid = "rat list list"

type_synonym pixel = "nat \<times> nat"

text \<open>The \<^verbatim>\<open>.shape\<close> of a 2-D array: \<open>[H, W]\<close>.\<close>

definition shape :: "grid \<Rightarrow> nat list" where
  "shape m = [length m, (case m of [] \<Rightarrow> 0 | row # _ \<Rightarrow> length row)]"

text \<open>A numpy array has rows of one length; a list of lists need not.\<close>

definition rectangular :: "grid \<Rightarrow> bool" where
  "rectangular m = list_all (\<lambda>row. length row = shape m ! 1) m"

text \<open>
  The exceptions that can end the modelled code. The source raises \<open>ValueError\<close> itself,
  on unpacking \<^verbatim>\<open>h, w = img_shape[:2]\<close> when the shape has fewer than two entries; the
  drawing calls raise \<open>TypeError\<close>, \<open>IndexError\<close> and \<open>ValueError\<close> on an image they
  cannot draw.
\<close>

datatype error = ValueError | TypeError | IndexError

text \<open>\<^verbatim>\<open>PIXEL_SPACING = 0.5\<close>, the module-level global (mm per pixel).\<close>

definition PIXEL_SPACING :: rat where
  "PIXEL_SPACING = 1 / 2"

section \<open>Binarization\<close>

text \<open>
  \<^verbatim>\<open>(mask > 0.5).astype(np.uint8)\<close>, written at line 35 and again at line 64 of the
  source: an element greater than 0.5 becomes 1, every other element 0.
\<close>

definition binarize :: "grid \<Rightarrow> grid" where
  "binarize m = map (map (\<lambda>v. if v > 1 / 2 then 1 else 0)) m"

section \<open>Anatomical classification\<close>

text \<open>
  \<^verbatim>\<open>determine_lobe(centroid, img_shape)\<close>. The divisions \<^verbatim>\<open>w / 2\<close>, \<^verbatim>\<open>h / 3\<close> and
  \<^verbatim>\<open>2 * h / 3\<close> are Python's true division.
\<close>

definition determine_lobe :: "rat \<times> rat \<Rightarrow> nat list \<Rightarrow> error + string" where
  "determine_lobe centroid img_shape =
     (case take 2 img_shape of
        [h, w] \<Rightarrow>
          (case centroid of
             (x, y) \<Rightarrow>
               (let hemisphere =
                      (if x < of_nat w / 2 then ''Left Hemisphere'' else ''Right Hemisphere'');
                    region =
                      (if y < of_nat h / 3 then ''Frontal Lobe''
                       else if y < 2 * of_nat h / 3 then ''Parietal Lobe''
                       else ''Occipital/Temporal Lobe'')
                in Inr (region @ '' ('' @ hemisphere @ '')'')))
      | _ \<Rightarrow> Inl ValueError)"

section \<open>Connected components\<close>

text \<open>
  Modelled from the spec: \<^verbatim>\<open>cv2.connectedComponentsWithStats\<close> is OpenCV library code,
  called at line 38 of the source and absent from the repository. The model follows
  section 4.2 of the specification: foreground pixels are grouped by connectivity, labels
  are given in row-major scan order starting at 1, label 0 is the background, and each
  label has a pixel area, a minimal bounding box and a mean centroid.
\<close>

datatype connectivity = Conn4 | Conn8

definition gap :: "nat \<Rightarrow> nat \<Rightarrow> nat" where
  "gap a b = (if a \<le> b then b - a else a - b)"

text \<open>
  Two distinct pixels are neighbours when they touch: along an edge (4-connectivity), or
  along an edge or at a corner (8-connectivity).
\<close>

definition adjacent :: "connectivity \<Rightarrow> pixel \<Rightarrow> pixel \<Rightarrow> bool" where
  "adjacent c p q =
     (case c of
        Conn4 \<Rightarrow> gap (fst p) (fst q) + gap (snd p) (snd q) = 1
      | Conn8 \<Rightarrow> p \<noteq> q \<and> gap (fst p) (fst q) \<le> 1 \<and> gap (snd p) (snd q) \<le> 1)"

text \<open>Two neighbours that both lie in the set \<open>S\<close> are linked in \<open>S\<close>.\<close>

definition linked :: "connectivity \<Rightarrow> pixel set \<Rightarrow> pixel \<Rightarrow> pixel \<Rightarrow> bool" where
  "linked c S p q = (adjacent c p q \<and> p \<in> S \<and> q \<in> S)"

text \<open>The pixels of row \<open>y\<close> that satisfy \<open>P\<close>, left to right; then all rows, top down.\<close>

definition row_pixels :: "(rat \<Rightarrow> bool) \<Rightarrow> nat \<Rightarrow> rat list \<Rightarrow> pixel list" where
  "row_pixels P y row = map (\<lambda>x. (x, y)) (filter (\<lambda>x. P (row ! x)) [0..<length row])"

definition scan :: "(rat \<Rightarrow> bool) \<Rightarrow> grid \<Rightarrow> pixel list" where
  "scan P img = concat (map (\<lambda>y. row_pixels P y (img ! y)) [0..<length img])"

text \<open>The order of the scan: an earlier row, or the same row and an earlier column.\<close>

definition scanned_before :: "pixel \<Rightarrow> pixel \<Rightarrow> bool" where
  "scanned_before p q = (snd p < snd q \<or> (snd p = snd q \<and> fst p < fst q))"

text \<open>OpenCV takes every non-zero element as foreground.\<close>

definition foreground :: "grid \<Rightarrow> pixel list" where
  "foreground img = scan (\<lambda>v. v \<noteq> 0) img"

definition background :: "grid \<Rightarrow> pixel list" where
  "background img = scan (\<lambda>v. v = 0) img"

text \<open>
  Flood fill: \<open>reached\<close> grows by the candidates that touch it until none does. The
  candidates left over are the second argument.
\<close>

function flood :: "connectivity \<Rightarrow> pixel list \<Rightarrow> pixel list \<Rightarrow> pixel list" where
  "flood c reached rest =
     (if filter (\<lambda>q. list_ex (\<lambda>p. adjacent c p q) reached) rest = [] then reached
      else flood c (reached @ filter (\<lambda>q. list_ex (\<lambda>p. adjacent c p q) reached) rest)
             (filter (\<lambda>q. \<not> list_ex (\<lambda>p. adjacent c p q) reached) rest))"
  by pat_completeness auto
termination
proof (relation "measure (\<lambda>(c, reached, rest). length rest)")
  show "wf (measure (\<lambda>(c, reached, rest). length rest))"
    by simp
next
  fix c :: connectivity and reached rest :: "pixel list"
  assume "filter (\<lambda>q. list_ex (\<lambda>p. adjacent c p q) reached) rest \<noteq> []"
  then have "0 < length (filter (\<lambda>q. list_ex (\<lambda>p. adjacent c p q) reached) rest)"
    by simp
  moreover have
    "length (filter (\<lambda>q. list_ex (\<lambda>p. adjacent c p q) reached) rest)
       + length (filter (\<lambda>q. \<not> list_ex (\<lambda>p. adjacent c p q) reached) rest) = length rest"
    by (rule sum_length_filter_compl)
  ultimately have
    "length (filter (\<lambda>q. \<not> list_ex (\<lambda>p. adjacent c p q) reached) rest) < length rest"
    by linarith
  then show
    "((c, reached @ filter (\<lambda>q. list_ex (\<lambda>p. adjacent c p q) reached) rest,
       filter (\<lambda>q. \<not> list_ex (\<lambda>p. adjacent c p q) reached) rest), (c, reached, rest))
     \<in> measure (\<lambda>(c, reached, rest). length rest)"
    by simp
qed

declare flood.simps [simp del]

text \<open>
  The scan: the first pixel not yet labelled starts the next label, which takes every
  pixel its flood fill reaches; the scan goes on over the pixels that remain.
\<close>

function label_scan :: "connectivity \<Rightarrow> pixel list \<Rightarrow> pixel list list" where
  "label_scan c [] = []"
| "label_scan c (p # ps) =
     flood c [p] ps # label_scan c (filter (\<lambda>q. q \<notin> set (flood c [p] ps)) ps)"
  by pat_completeness auto
termination
  by (relation "measure (\<lambda>(c, ps). length ps)") (simp_all add: less_Suc_eq_le)

text \<open>Smallest and largest element of a list of coordinates (0 for no coordinate).\<close>

fun lowest :: "nat list \<Rightarrow> nat" where
  "lowest [] = 0"
| "lowest (x # xs) = fold min xs x"

fun highest :: "nat list \<Rightarrow> nat" where
  "highest [] = 0"
| "highest (x # xs) = fold max xs x"

text \<open>
  One row of the statistics array, \<open>[left, top, width, height, area]\<close>, and one row of
  the centroid array, from the pixels of a label.
\<close>

definition stats_row :: "pixel list \<Rightarrow> nat list" where
  "stats_row ps =
     [lowest (map fst ps), lowest (map snd ps),
      highest (map fst ps) - lowest (map fst ps) + 1,
      highest (map snd ps) - lowest (map snd ps) + 1,
      length ps]"

definition centroid_row :: "pixel list \<Rightarrow> rat \<times> rat" where
  "centroid_row ps =
     (of_nat (sum_list (map fst ps)) / of_nat (length ps),
      of_nat (sum_list (map snd ps)) / of_nat (length ps))"

definition CC_STAT_WIDTH :: nat where
  "CC_STAT_WIDTH = 2"

definition CC_STAT_HEIGHT :: nat where
  "CC_STAT_HEIGHT = 3"

definition CC_STAT_AREA :: nat where
  "CC_STAT_AREA = 4"

text \<open>
  The label image is given as the list of the pixel sets of the labels: entry \<open>l\<close> holds
  the pixels labelled \<open>l\<close>, entry 0 the background. The call in the source passes no
  connectivity, which is OpenCV's default of 8.
\<close>

definition connectedComponentsWithStats ::
  "grid \<Rightarrow> nat \<times> pixel list list \<times> nat list list \<times> (rat \<times> rat) list" where
  "connectedComponentsWithStats img =
     (let labels = background img # label_scan Conn8 (foreground img)
      in (length labels, labels, map stats_row labels, map centroid_row labels))"

section \<open>Tumor measurements\<close>

text \<open>The list comprehension over the centroids: the first exception ends it.\<close>

fun comprehension :: "('a \<Rightarrow> error + 'b) \<Rightarrow> 'a list \<Rightarrow> error + 'b list" where
  "comprehension f [] = Inr []"
| "comprehension f (x # xs) =
     (case f x of
        Inl e \<Rightarrow> Inl e
      | Inr y \<Rightarrow> (case comprehension f xs of Inl e \<Rightarrow> Inl e | Inr ys \<Rightarrow> Inr (y # ys)))"

text \<open>The seven arrays that \<^verbatim>\<open>extract_tumor_info\<close> returns.\<close>

record tumor_info =
  tumor_sizes_px :: "nat list"
  tumor_sizes_mm2 :: "rat list"
  tumor_bboxes :: "nat list list"
  tumor_centroids :: "(rat \<times> rat) list"
  tumor_heights_mm :: "rat list"
  tumor_widths_mm :: "rat list"
  tumor_locations :: "string list"

text \<open>
  \<^verbatim>\<open>extract_tumor_info(binary_mask, img_shape)\<close>. The function reads the module global
  \<^verbatim>\<open>PIXEL_SPACING\<close>; its value at the time of the call is the first argument here.
\<close>

definition extract_tumor_info :: "rat \<Rightarrow> grid \<Rightarrow> nat list \<Rightarrow> error + tumor_info" where
  "extract_tumor_info spacing binary_mask img_shape =
     (case connectedComponentsWithStats (binarize binary_mask) of
        (num_labels, labels, stats, centroids) \<Rightarrow>
          (let sizes_px = map (\<lambda>row. row ! CC_STAT_AREA) (drop 1 stats);
               bboxes = map (take 4) (drop 1 stats);
               centroids1 = drop 1 centroids;
               sizes_mm2 = map (\<lambda>a. of_nat a * spacing ^ 2) sizes_px;
               heights_px = map (\<lambda>row. row ! CC_STAT_HEIGHT) (drop 1 stats);
               widths_px = map (\<lambda>row. row ! CC_STAT_WIDTH) (drop 1 stats);
               heights_mm = map (\<lambda>h. of_nat h * spacing) heights_px;
               widths_mm = map (\<lambda>w. of_nat w * spacing) widths_px
           in case comprehension (\<lambda>centroid. determine_lobe centroid img_shape) centroids1 of
                Inl e \<Rightarrow> Inl e
              | Inr locations \<Rightarrow>
                  Inr \<lparr>tumor_sizes_px = sizes_px, tumor_sizes_mm2 = sizes_mm2,
                       tumor_bboxes = bboxes, tumor_centroids = centroids1,
                       tumor_heights_mm = heights_mm, tumor_widths_mm = widths_mm,
                       tumor_locations = locations\<rparr>))"

text \<open>
  One tumor as \<^verbatim>\<open>analyze_mask_tif\<close> draws and prints it: an element of the \<^verbatim>\<open>zip\<close> of
  the seven arrays.
\<close>

record tumor_record =
  area_px :: nat
  area_mm2 :: rat
  bbox_px :: "nat list"
  centroid_px :: "rat \<times> rat"
  height_mm :: rat
  width_mm :: rat
  region_label :: string

definition zip_records :: "tumor_info \<Rightarrow> tumor_record list" where
  "zip_records info =
     map (\<lambda>(size_px, size_mm2, bbox, centroid, h_mm, w_mm, location).
            \<lparr>area_px = size_px, area_mm2 = size_mm2, bbox_px = bbox, centroid_px = centroid,
             height_mm = h_mm, width_mm = w_mm, region_label = location\<rparr>)
       (zip (tumor_sizes_px info) (zip (tumor_sizes_mm2 info) (zip (tumor_bboxes info)
         (zip (tumor_centroids info) (zip (tumor_heights_mm info)
           (zip (tumor_widths_mm info) (tumor_locations info)))))))"

text \<open>
  Modelled from the spec: the drawing calls of lines 75 to 98 are matplotlib and skimage
  library code, absent from the repository. Section 6 of the specification takes a
  reference image to be a 2-D or 3-D grid whose first two dimensions equal the mask's
  shape. The libraries raise on other images; the model keeps these exceptions, under the
  names the libraries give them, and nothing else of the drawing. An image is given by
  its \<^verbatim>\<open>.shape\<close>.

  \<^verbatim>\<open>ax.imshow\<close> (lines 76 and 80) draws an array of shape \<open>(M, N)\<close>, \<open>(M, N, 1)\<close>,
  \<open>(M, N, 3)\<close> or \<open>(M, N, 4)\<close> and raises \<open>TypeError\<close> for every other shape.
\<close>

definition imshow :: "nat list \<Rightarrow> error + unit" where
  "imshow img_shape =
     (if length img_shape = 2 \<or> (length img_shape = 3 \<and> img_shape ! 2 \<in> {1, 3, 4})
      then Inr () else Inl TypeError)"

text \<open>
  \<^verbatim>\<open>mark_boundaries(img, mask, color=(1, 0, 0))\<close> (line 79) makes a 2-D image RGB and
  sets its pixels on the boundaries of the mask to the colour, through a boolean index of
  the mask's shape: numpy raises \<open>IndexError\<close> unless the first two dimensions of the
  image are those of the mask, whatever the mask holds, and \<open>ValueError\<close> when the three
  values of the colour do not fit the last dimension of the image. The result is the
  shape of the overlay.
\<close>

definition mark_boundaries :: "nat list \<Rightarrow> nat list \<Rightarrow> error + nat list" where
  "mark_boundaries img_shape mask_shape =
     (let marked = (if length img_shape = 2 then img_shape @ [3] else img_shape)
      in if take 2 marked \<noteq> mask_shape then Inl IndexError
         else if last marked \<noteq> 3 then Inl ValueError
         else Inr marked)"

text \<open>Lines 75 to 80: the image, the overlay of the mask's boundaries, the overlay drawn.\<close>

definition draw_overlay :: "nat list \<Rightarrow> nat list \<Rightarrow> error + unit" where
  "draw_overlay img_shape mask_shape =
     (case imshow img_shape of
        Inl e \<Rightarrow> Inl e
      | Inr _ \<Rightarrow>
          (case mark_boundaries img_shape mask_shape of
             Inl e \<Rightarrow> Inl e
           | Inr img_overlay \<Rightarrow> imshow img_overlay))"

text \<open>
  \<^verbatim>\<open>analyze_mask_tif(mask_path, original_image_path)\<close>. Reading the two files is input:
  \<open>mask_tif\<close> is the array read from \<^verbatim>\<open>mask_path\<close>, and \<open>original_image\<close> is the \<^verbatim>\<open>.shape\<close>
  of the array read from \<^verbatim>\<open>original_image_path\<close>, or \<open>None\<close> when no path is given
  (the source then takes \<^verbatim>\<open>np.zeros_like(mask)\<close>, whose shape is the mask's). The
  measurement of line 73 comes first; the drawing follows, and an exception of the
  drawing ends the function before a tumor is drawn or printed. The result of a run that
  completes is the list of tumors that the source draws and prints.
\<close>

definition analyze_mask_tif ::
  "rat \<Rightarrow> grid \<Rightarrow> nat list option \<Rightarrow> error + tumor_record list" where
  "analyze_mask_tif spacing mask_tif original_image =
     (let mask1 = binarize mask_tif;
          img_shape = (case original_image of Some s \<Rightarrow> s | None \<Rightarrow> shape mask1)
      in case extract_tumor_info spacing mask1 img_shape of
           Inl e \<Rightarrow> Inl e
         | Inr info \<Rightarrow>
             (case draw_overlay img_shape (shape mask1) of
                Inl e \<Rightarrow> Inl e
              | Inr _ \<Rightarrow> Inr (zip_records info)))"

section \<open>Auxiliary facts\<close>

lemma determine_lobe_two_dims:
  "determine_lobe (cx, cy) (H # W # rest) =
     Inr ((if cy < of_nat H / 3 then ''Frontal Lobe''
           else if cy < 2 * of_nat H / 3 then ''Parietal Lobe''
           else ''Occipital/Temporal Lobe'')
          @ '' ('' @
          (if cx < of_nat W / 2 then ''Left Hemisphere'' else ''Right Hemisphere'')
          @ '')'')"
  by (simp add: determine_lobe_def)

lemma determine_lobe_no_error:
  "determine_lobe c (H # W # rest) = Inr (projr (determine_lobe c (H # W # rest)))"
  by (cases c) (simp add: determine_lobe_two_dims)

lemma binarize_idem: "binarize (binarize m) = binarize m"
  by (simp add: binarize_def)

lemma shape_binarize: "shape (binarize m) = shape m"
  by (cases m) (simp_all add: shape_def binarize_def)

lemma comprehension_Inr:
  "comprehension f xs = Inr ys \<Longrightarrow>
     ys = map (\<lambda>x. projr (f x)) xs \<and> (\<forall>x\<in>set xs. f x = Inr (projr (f x)))"
  by (induction xs arbitrary: ys) (auto split: sum.splits)

lemma comprehension_total:
  "(\<And>x. x \<in> set xs \<Longrightarrow> \<exists>y. f x = Inr y) \<Longrightarrow>
     comprehension f xs = Inr (map (\<lambda>x. projr (f x)) xs)"
proof (induction xs)
  case Nil
  show ?case by simp
next
  case (Cons a xs)
  from Cons.prems obtain y where "f a = Inr y"
    by auto
  moreover from Cons have "comprehension f xs = Inr (map (\<lambda>x. projr (f x)) xs)"
    by simp
  ultimately show ?case
    by simp
qed

lemma stats_row_nth:
  "stats_row ps ! CC_STAT_AREA = length ps"
  "stats_row ps ! CC_STAT_HEIGHT = highest (map snd ps) - lowest (map snd ps) + 1"
  "stats_row ps ! CC_STAT_WIDTH = highest (map fst ps) - lowest (map fst ps) + 1"
  by (simp_all add: stats_row_def CC_STAT_AREA_def CC_STAT_HEIGHT_def CC_STAT_WIDTH_def)

lemma extract_tumor_info_Inr:
  assumes "extract_tumor_info spacing m shp = Inr info"
  shows "zip_records info =
     map (\<lambda>ps. \<lparr>area_px = length ps, area_mm2 = of_nat (length ps) * spacing ^ 2,
                 bbox_px = take 4 (stats_row ps), centroid_px = centroid_row ps,
                 height_mm = of_nat (stats_row ps ! CC_STAT_HEIGHT) * spacing,
                 width_mm = of_nat (stats_row ps ! CC_STAT_WIDTH) * spacing,
                 region_label = projr (determine_lobe (centroid_row ps) shp)\<rparr>)
       (label_scan Conn8 (foreground (binarize m)))"
    and "\<forall>ps \<in> set (label_scan Conn8 (foreground (binarize m))).
           determine_lobe (centroid_row ps) shp = Inr (projr (determine_lobe (centroid_row ps) shp))"
proof -
  let ?comps = "label_scan Conn8 (foreground (binarize m))"
  from assms obtain locations where
    c: "comprehension (\<lambda>centroid. determine_lobe centroid shp) (map centroid_row ?comps)
          = Inr locations"
    and i: "info = \<lparr>tumor_sizes_px = map (\<lambda>ps. stats_row ps ! CC_STAT_AREA) ?comps,
              tumor_sizes_mm2 = map (\<lambda>ps. of_nat (stats_row ps ! CC_STAT_AREA) * spacing ^ 2) ?comps,
              tumor_bboxes = map (\<lambda>ps. take 4 (stats_row ps)) ?comps,
              tumor_centroids = map centroid_row ?comps,
              tumor_heights_mm = map (\<lambda>ps. of_nat (stats_row ps ! CC_STAT_HEIGHT) * spacing) ?comps,
              tumor_widths_mm = map (\<lambda>ps. of_nat (stats_row ps ! CC_STAT_WIDTH) * spacing) ?comps,
              tumor_locations = locations\<rparr>"
    by (auto simp: extract_tumor_info_def connectedComponentsWithStats_def Let_def drop_map
          o_def split: sum.splits)
  from comprehension_Inr [OF c]
  have l: "locations = map (\<lambda>ps. projr (determine_lobe (centroid_row ps) shp)) ?comps"
    and e: "\<forall>ps \<in> set ?comps.
           determine_lobe (centroid_row ps) shp = Inr (projr (determine_lobe (centroid_row ps) shp))"
    by (simp_all add: o_def)
  show "\<forall>ps \<in> set ?comps.
           determine_lobe (centroid_row ps) shp = Inr (projr (determine_lobe (centroid_row ps) shp))"
    by (rule e)
  show "zip_records info =
     map (\<lambda>ps. \<lparr>area_px = length ps, area_mm2 = of_nat (length ps) * spacing ^ 2,
                 bbox_px = take 4 (stats_row ps), centroid_px = centroid_row ps,
                 height_mm = of_nat (stats_row ps ! CC_STAT_HEIGHT) * spacing,
                 width_mm = of_nat (stats_row ps ! CC_STAT_WIDTH) * spacing,
                 region_label = projr (determine_lobe (centroid_row ps) shp)\<rparr>) ?comps"
    by (simp add: i l zip_records_def zip_map_map zip_same_conv_map o_def stats_row_nth(1))
qed

lemma extract_tumor_info_two_dims:
  "\<exists>info. extract_tumor_info spacing m (H # W # rest) = Inr info"
proof -
  have "comprehension (\<lambda>centroid. determine_lobe centroid (H # W # rest)) cs
          = Inr (map (\<lambda>c. projr (determine_lobe c (H # W # rest))) cs)" for cs
    by (rule comprehension_total) (metis determine_lobe_no_error)
  then show ?thesis
    by (simp add: extract_tumor_info_def connectedComponentsWithStats_def Let_def)
qed

lemma determine_lobe_take: "determine_lobe c (take 2 img_shape) = determine_lobe c img_shape"
  by (simp add: determine_lobe_def)

lemma length_shape: "length (shape m) = 2"
  by (simp add: shape_def)

lemma draw_overlay_Inr:
  assumes "length mask_shape = 2"
  shows "(draw_overlay img_shape mask_shape = Inr u) =
     (take 2 img_shape = mask_shape \<and>
      (length img_shape = 2 \<or> (length img_shape = 3 \<and> img_shape ! 2 = 3)))"
proof (cases "length img_shape = 2")
  case True
  then show ?thesis
    by (auto simp: draw_overlay_def imshow_def mark_boundaries_def Let_def nth_append)
next
  case False
  show ?thesis
  proof (cases "length img_shape = 3")
    case True
    then have "last img_shape = img_shape ! 2"
      by (cases img_shape rule: rev_cases) (simp_all add: nth_append)
    with True show ?thesis
      by (auto simp: draw_overlay_def imshow_def mark_boundaries_def Let_def)
  next
    case False
    with \<open>length img_shape \<noteq> 2\<close> show ?thesis
      by (simp add: draw_overlay_def imshow_def)
  qed
qed

lemma draw_overlay_mismatch:
  assumes "take 2 img_shape \<noteq> mask_shape"
    and "length img_shape = 2 \<or> (length img_shape = 3 \<and> img_shape ! 2 = 3)"
  shows "draw_overlay img_shape mask_shape = Inl IndexError"
  using assms by (auto simp: draw_overlay_def imshow_def mark_boundaries_def Let_def)

lemma draw_overlay_shape: "draw_overlay (shape m) (shape m) = Inr ()"
  by (simp add: draw_overlay_Inr length_shape)

lemma analyze_mask_tif_Inr:
  assumes "analyze_mask_tif spacing m ref = Inr recs"
  shows "recs =
     map (\<lambda>ps. \<lparr>area_px = length ps, area_mm2 = of_nat (length ps) * spacing ^ 2,
                 bbox_px = take 4 (stats_row ps), centroid_px = centroid_row ps,
                 height_mm = of_nat (stats_row ps ! CC_STAT_HEIGHT) * spacing,
                 width_mm = of_nat (stats_row ps ! CC_STAT_WIDTH) * spacing,
                 region_label = projr (determine_lobe (centroid_row ps)
                   (case ref of Some s \<Rightarrow> s | None \<Rightarrow> shape m))\<rparr>)
       (label_scan Conn8 (foreground (binarize m)))"
    and "\<forall>ps \<in> set (label_scan Conn8 (foreground (binarize m))).
           determine_lobe (centroid_row ps) (case ref of Some s \<Rightarrow> s | None \<Rightarrow> shape m)
           = Inr (projr (determine_lobe (centroid_row ps) (case ref of Some s \<Rightarrow> s | None \<Rightarrow> shape m)))"
    and "draw_overlay (case ref of Some s \<Rightarrow> s | None \<Rightarrow> shape m) (shape m) = Inr ()"
proof -
  let ?shp = "case ref of Some s \<Rightarrow> s | None \<Rightarrow> shape m"
  from assms obtain info where
    e: "extract_tumor_info spacing (binarize m) ?shp = Inr info" and r: "recs = zip_records info"
    and d: "draw_overlay ?shp (shape m) = Inr ()"
    by (cases ref) (auto simp: analyze_mask_tif_def Let_def shape_binarize split: sum.splits)
  show "draw_overlay ?shp (shape m) = Inr ()"
    by (rule d)
  from extract_tumor_info_Inr [OF e] r
  show "recs =
     map (\<lambda>ps. \<lparr>area_px = length ps, area_mm2 = of_nat (length ps) * spacing ^ 2,
                 bbox_px = take 4 (stats_row ps), centroid_px = centroid_row ps,
                 height_mm = of_nat (stats_row ps ! CC_STAT_HEIGHT) * spacing,
                 width_mm = of_nat (stats_row ps ! CC_STAT_WIDTH) * spacing,
                 region_label = projr (determine_lobe (centroid_row ps) ?shp)\<rparr>)
       (label_scan Conn8 (foreground (binarize m)))"
    and "\<forall>ps \<in> set (label_scan Conn8 (foreground (binarize m))).
           determine_lobe (centroid_row ps) ?shp = Inr (projr (determine_lobe (centroid_row ps) ?shp))"
    by (simp_all add: binarize_idem)
qed

lemma set_scan:
  "set (scan P img) = {(x, y). y < length img \<and> x < length (img ! y) \<and> P (img ! y ! x)}"
  by (auto simp: scan_def row_pixels_def)

lemma foreground_binarize_empty:
  assumes "\<forall>row \<in> set m. \<forall>v \<in> set row. v \<le> 1 / 2"
  shows "foreground (binarize m) = []"
proof -
  have "\<not> m ! y ! x > 1 / 2" if "y < length m" and "x < length (m ! y)" for x y
    using assms that by (meson nth_mem not_less)
  then have "set (foreground (binarize m)) = {}"
    by (auto simp: foreground_def set_scan binarize_def)
  then show ?thesis by simp
qed

lemma analyze_mask_tif_total:
  assumes "\<forall>ps \<in> set (label_scan Conn8 (foreground (binarize m))).
             \<exists>l. determine_lobe (centroid_row ps) (case ref of Some s \<Rightarrow> s | None \<Rightarrow> shape m) = Inr l"
    and "draw_overlay (case ref of Some s \<Rightarrow> s | None \<Rightarrow> shape m) (shape m) = Inr ()"
  shows "analyze_mask_tif spacing m ref = Inr
     (map (\<lambda>ps. \<lparr>area_px = length ps, area_mm2 = of_nat (length ps) * spacing ^ 2,
                 bbox_px = take 4 (stats_row ps), centroid_px = centroid_row ps,
                 height_mm = of_nat (stats_row ps ! CC_STAT_HEIGHT) * spacing,
                 width_mm = of_nat (stats_row ps ! CC_STAT_WIDTH) * spacing,
                 region_label = projr (determine_lobe (centroid_row ps)
                   (case ref of Some s \<Rightarrow> s | None \<Rightarrow> shape m))\<rparr>)
       (label_scan Conn8 (foreground (binarize m))))"
proof -
  let ?shp = "case ref of Some s \<Rightarrow> s | None \<Rightarrow> shape m"
  let ?comps = "label_scan Conn8 (foreground (binarize m))"
  have "comprehension (\<lambda>centroid. determine_lobe centroid ?shp) (map centroid_row ?comps)
          = Inr (map (\<lambda>c. projr (determine_lobe c ?shp)) (map centroid_row ?comps))"
    using assms(1) by (intro comprehension_total) auto
  then obtain info where e: "extract_tumor_info spacing (binarize m) ?shp = Inr info"
    by (simp add: extract_tumor_info_def connectedComponentsWithStats_def Let_def binarize_idem)
  with assms(2) have a: "analyze_mask_tif spacing m ref = Inr (zip_records info)"
    by (cases ref) (simp_all add: analyze_mask_tif_def Let_def shape_binarize)
  from analyze_mask_tif_Inr(1) [OF a] a show ?thesis
    by simp
qed

lemma analyze_mask_tif_no_reference:
  assumes "analyze_mask_tif spacing m ref = Inr recs"
  shows "analyze_mask_tif spacing m None = Inr recs"
    and "\<forall>r \<in> set recs. determine_lobe (centroid_px r) (shape m) = Inr (region_label r)"
proof -
  let ?shp = "case ref of Some s \<Rightarrow> s | None \<Rightarrow> shape m"
  note r = analyze_mask_tif_Inr [OF assms]
  from r(3) have "take 2 ?shp = shape m"
    by (simp add: draw_overlay_Inr length_shape)
  then have same: "determine_lobe c ?shp = determine_lobe c (shape m)" for c
    using determine_lobe_take [of c ?shp] by simp
  have "analyze_mask_tif spacing m None = Inr
     (map (\<lambda>ps. \<lparr>area_px = length ps, area_mm2 = of_nat (length ps) * spacing ^ 2,
                 bbox_px = take 4 (stats_row ps), centroid_px = centroid_row ps,
                 height_mm = of_nat (stats_row ps ! CC_STAT_HEIGHT) * spacing,
                 width_mm = of_nat (stats_row ps ! CC_STAT_WIDTH) * spacing,
                 region_label = projr (determine_lobe (centroid_row ps)
                   (case None of Some s \<Rightarrow> s | None \<Rightarrow> shape m))\<rparr>)
       (label_scan Conn8 (foreground (binarize m))))"
    using r(2) by (intro analyze_mask_tif_total) (auto simp: same draw_overlay_shape)
  then show "analyze_mask_tif spacing m None = Inr recs"
    by (subst r(1)) (simp add: same)
  show "\<forall>r \<in> set recs. determine_lobe (centroid_px r) (shape m) = Inr (region_label r)"
    using r(2) by (subst r(1)) (simp add: same)
qed

lemma adjacent_sym: "adjacent c p q \<Longrightarrow> adjacent c q p"
  by (cases c) (auto simp: adjacent_def gap_def split: if_splits)

lemma flood_reached: "set reached \<subseteq> set (flood c reached rest)"
proof (induction c reached rest rule: flood.induct)
  case (1 c reached rest)
  show ?case
  proof (cases "filter (\<lambda>q. list_ex (\<lambda>p. adjacent c p q) reached) rest = []")
    case True
    then show ?thesis by (subst flood.simps) simp
  next
    case False
    from "1.IH" [OF False] False show ?thesis
      by (subst flood.simps) auto
  qed
qed

lemma flood_subset: "set (flood c reached rest) \<subseteq> set reached \<union> set rest"
proof (induction c reached rest rule: flood.induct)
  case (1 c reached rest)
  show ?case
  proof (cases "filter (\<lambda>q. list_ex (\<lambda>p. adjacent c p q) reached) rest = []")
    case True
    then show ?thesis by (subst flood.simps) simp
  next
    case False
    from "1.IH" [OF False] False show ?thesis
      by (subst flood.simps) auto
  qed
qed

lemma flood_closed:
  "p \<in> set (flood c reached rest) \<Longrightarrow> q \<in> set rest \<Longrightarrow> adjacent c p q \<Longrightarrow>
     q \<in> set (flood c reached rest)"
proof (induction c reached rest rule: flood.induct)
  case (1 c reached rest)
  let ?new = "filter (\<lambda>q. list_ex (\<lambda>p. adjacent c p q) reached) rest"
  let ?rest = "filter (\<lambda>q. \<not> list_ex (\<lambda>p. adjacent c p q) reached) rest"
  show ?case
  proof (cases "?new = []")
    case True
    then have f: "flood c reached rest = reached"
      by (subst flood.simps) simp
    from "1.prems" have "q \<in> set ?new"
      by (auto simp: f list_ex_iff)
    with True show ?thesis
      by simp
  next
    case False
    then have f: "flood c reached rest = flood c (reached @ ?new) ?rest"
      by (subst flood.simps) simp
    show ?thesis
    proof (cases "q \<in> set ?rest")
      case True
      with "1.IH" [OF False] "1.prems" show ?thesis
        by (simp add: f)
    next
      case False
      with "1.prems"(2) have "q \<in> set (reached @ ?new)"
        by auto
      with flood_reached [of "reached @ ?new" c ?rest] show ?thesis
        by (auto simp: f)
    qed
  qed
qed

lemma label_scan_subset:
  "region \<in> set (label_scan c ps) \<Longrightarrow> region \<noteq> [] \<and> set region \<subseteq> set ps"
proof (induction c ps rule: label_scan.induct)
  case (1 c)
  then show ?case by simp
next
  case (2 c p ps)
  show ?case
  proof (cases "region = flood c [p] ps")
    case True
    with flood_reached [of "[p]" c ps] flood_subset [of c "[p]" ps] show ?thesis
      by auto
  next
    case False
    with "2.prems" have "region \<in> set (label_scan c (filter (\<lambda>q. q \<notin> set (flood c [p] ps)) ps))"
      by simp
    from "2.IH" [OF this] show ?thesis
      by auto
  qed
qed

lemma label_scan_cover:
  "q \<in> set ps \<Longrightarrow> \<exists>region \<in> set (label_scan c ps). q \<in> set region"
proof (induction c ps rule: label_scan.induct)
  case (1 c)
  then show ?case by simp
next
  case (2 c p ps)
  show ?case
  proof (cases "q \<in> set (flood c [p] ps)")
    case True
    then show ?thesis by simp
  next
    case False
    with flood_reached [of "[p]" c ps] have "q \<noteq> p"
      by auto
    with "2.prems" False have "q \<in> set (filter (\<lambda>q. q \<notin> set (flood c [p] ps)) ps)"
      by simp
    from "2.IH" [OF this] show ?thesis
      by auto
  qed
qed

lemma label_scan_order:
  "sorted_wrt R ps \<Longrightarrow>
     sorted_wrt (\<lambda>A B. (\<exists>p \<in> set A. \<forall>q \<in> set B. R p q) \<and> set A \<inter> set B = {})
       (label_scan c ps)"
proof (induction c ps rule: label_scan.induct)
  case (1 c)
  then show ?case by simp
next
  case (2 c p ps)
  let ?A = "flood c [p] ps"
  let ?ps = "filter (\<lambda>q. q \<notin> set ?A) ps"
  from "2.prems" have "sorted_wrt R ?ps"
    by (simp add: sorted_wrt_filter)
  from "2.IH" [OF this]
  have tail: "sorted_wrt (\<lambda>A B. (\<exists>p \<in> set A. \<forall>q \<in> set B. R p q) \<and> set A \<inter> set B = {})
       (label_scan c ?ps)" .
  have p: "p \<in> set ?A"
    using flood_reached [of "[p]" c ps] by simp
  have "(\<exists>p \<in> set ?A. \<forall>q \<in> set B. R p q) \<and> set ?A \<inter> set B = {}"
    if "B \<in> set (label_scan c ?ps)" for B
  proof -
    from label_scan_subset [OF that] have B: "set B \<subseteq> set ?ps"
      by simp
    with "2.prems" have "\<forall>q \<in> set B. R p q"
      by auto
    with p B show ?thesis
      by auto
  qed
  with tail show ?case
    by simp
qed

lemma label_scan_closed:
  "region \<in> set (label_scan c ps) \<Longrightarrow> p \<in> set region \<Longrightarrow> q \<in> set ps \<Longrightarrow>
     adjacent c p q \<Longrightarrow> q \<in> set region"
proof (induction c ps rule: label_scan.induct)
  case (1 c)
  then show ?case by simp
next
  case (2 c p0 ps)
  let ?A = "flood c [p0] ps"
  let ?ps = "filter (\<lambda>q. q \<notin> set ?A) ps"
  have p0: "p0 \<in> set ?A"
    using flood_reached [of "[p0]" c ps] by simp
  show ?case
  proof (cases "region = ?A")
    case True
    show ?thesis
    proof (cases "q = p0")
      case True
      with p0 \<open>region = ?A\<close> show ?thesis by simp
    next
      case False
      with "2.prems"(3) have "q \<in> set ps"
        by simp
      with flood_closed [of p c "[p0]" ps q] "2.prems" True show ?thesis
        by simp
    qed
  next
    case False
    with "2.prems"(1) have region: "region \<in> set (label_scan c ?ps)"
      by simp
    from label_scan_subset [OF region] "2.prems"(2) have p: "p \<in> set ps" "p \<notin> set ?A"
      by auto
    have "q \<notin> set ?A"
    proof
      assume "q \<in> set ?A"
      from flood_closed [OF this p(1) adjacent_sym [OF "2.prems"(4)]] p(2) show False
        by simp
    qed
    with p0 "2.prems"(3) have "q \<in> set ?ps"
      by auto
    from "2.IH" [OF region "2.prems"(2) this "2.prems"(4)] show ?thesis .
  qed
qed

lemma sorted_wrt_concat_upt:
  assumes "\<And>y. y < n \<Longrightarrow> sorted_wrt R (f y)"
    and "\<And>y1 y2 p q. y1 < y2 \<Longrightarrow> y2 < n \<Longrightarrow> p \<in> set (f y1) \<Longrightarrow> q \<in> set (f y2) \<Longrightarrow> R p q"
  shows "sorted_wrt R (concat (map f [0..<n]))"
  using assms
proof (induction n)
  case 0
  show ?case by simp
next
  case (Suc n)
  have "sorted_wrt R (concat (map f [0..<n]))"
    using Suc.prems by (intro Suc.IH) auto
  moreover have "sorted_wrt R (f n)"
    using Suc.prems(1) by simp
  moreover have "R p q" if "p \<in> set (concat (map f [0..<n]))" and "q \<in> set (f n)" for p q
    using that Suc.prems(2) [of _ n p q] by auto
  ultimately show ?case
    by (simp add: sorted_wrt_append)
qed

lemma row_pixels_sorted: "sorted_wrt scanned_before (row_pixels P y row)"
proof -
  have "sorted_wrt (<) (filter (\<lambda>x. P (row ! x)) [0..<length row])"
    by (intro sorted_wrt_filter) simp
  then show ?thesis
    by (simp add: row_pixels_def sorted_wrt_map scanned_before_def)
qed

lemma scan_sorted: "sorted_wrt scanned_before (scan P img)"
  unfolding scan_def
proof (rule sorted_wrt_concat_upt)
  fix y
  show "sorted_wrt scanned_before (row_pixels P y (img ! y))"
    by (rule row_pixels_sorted)
next
  fix y1 y2 :: nat and p q
  assume "y1 < y2" "p \<in> set (row_pixels P y1 (img ! y1))" "q \<in> set (row_pixels P y2 (img ! y2))"
  then show "scanned_before p q"
    by (auto simp: row_pixels_def scanned_before_def)
qed

lemma lowest_Min: "xs \<noteq> [] \<Longrightarrow> lowest xs = Min (set xs)"
  by (cases xs) (simp_all add: Min.set_eq_fold [symmetric])

lemma highest_Max: "xs \<noteq> [] \<Longrightarrow> highest xs = Max (set xs)"
  by (cases xs) (simp_all add: Max.set_eq_fold [symmetric])

lemma lowest_le: "x \<in> set xs \<Longrightarrow> lowest xs \<le> x"
  using lowest_Min [of xs] by (cases "xs = []") auto

lemma highest_ge: "x \<in> set xs \<Longrightarrow> x \<le> highest xs"
  using highest_Max [of xs] by (cases "xs = []") auto

lemma highest_in: "xs \<noteq> [] \<Longrightarrow> highest xs \<in> set xs"
  using Max_in [of "set xs"] by (simp add: highest_Max)

lemma lowest_in: "xs \<noteq> [] \<Longrightarrow> lowest xs \<in> set xs"
  using Min_in [of "set xs"] by (simp add: lowest_Min)

lemma sum_list_lower: "(\<And>x. x \<in> set xs \<Longrightarrow> a \<le> x) \<Longrightarrow> length xs * a \<le> sum_list xs"
  for a :: nat
  by (induction xs) (simp_all add: add_mono)

lemma sum_list_upper: "(\<And>x. x \<in> set xs \<Longrightarrow> x \<le> a) \<Longrightarrow> sum_list xs \<le> length xs * a"
  for a :: nat
  by (induction xs) (simp_all add: add_mono)

lemma mean_bounds:
  fixes xs :: "nat list"
  assumes "xs \<noteq> []"
  shows "rat_of_nat (lowest xs) \<le> of_nat (sum_list xs) / of_nat (length xs)"
    and "rat_of_nat (sum_list xs) / of_nat (length xs) \<le> of_nat (highest xs)"
proof -
  from assms have n: "0 < rat_of_nat (length xs)"
    by simp
  have "length xs * lowest xs \<le> sum_list xs"
    by (rule sum_list_lower) (rule lowest_le)
  then have "rat_of_nat (length xs * lowest xs) \<le> of_nat (sum_list xs)"
    by (simp only: of_nat_le_iff)
  then show "rat_of_nat (lowest xs) \<le> of_nat (sum_list xs) / of_nat (length xs)"
    using n by (simp add: pos_le_divide_eq mult.commute)
  have "sum_list xs \<le> length xs * highest xs"
    by (rule sum_list_upper) (rule highest_ge)
  then have "rat_of_nat (sum_list xs) \<le> of_nat (length xs * highest xs)"
    by (simp only: of_nat_le_iff)
  then show "rat_of_nat (sum_list xs) / of_nat (length xs) \<le> of_nat (highest xs)"
    using n by (simp add: pos_divide_le_eq mult.commute)
qed

lemma rectangular_binarize: "rectangular (binarize m) = rectangular m"
  by (cases m) (simp_all add: rectangular_def shape_def binarize_def list_all_iff)

lemma set_foreground_binarize:
  "set (foreground (binarize m)) =
     {(x, y). y < length m \<and> x < length (m ! y) \<and> m ! y ! x > 1 / 2}"
  by (auto simp: foreground_def set_scan binarize_def split: if_splits)

lemma foreground_in_bounds:
  assumes "rectangular img" and "shape img = [H, W]" and "p \<in> set (foreground img)"
  shows "fst p < W \<and> snd p < H"
proof -
  from assms(3) have y: "snd p < length img" and x: "fst p < length (img ! snd p)"
    by (auto simp: foreground_def set_scan)
  from assms(1) y have "length (img ! snd p) = shape img ! 1"
    by (simp add: rectangular_def list_all_length)
  with x y assms(2) show ?thesis
    by (simp add: shape_def)
qed

lemma region_geometry:
  assumes "rectangular img" and "shape img = [H, W]"
    and "region \<in> set (label_scan c (foreground img))"
  shows "region \<noteq> []"
    and "lowest (map fst region) \<le> highest (map fst region)"
    and "lowest (map snd region) \<le> highest (map snd region)"
    and "highest (map fst region) < W"
    and "highest (map snd region) < H"
proof -
  from label_scan_subset [OF assms(3)]
  have ne: "region \<noteq> []" and sub: "set region \<subseteq> set (foreground img)"
    by simp_all
  show "region \<noteq> []"
    by (rule ne)
  from ne have "highest (map fst region) \<in> set (map fst region)"
    by (intro highest_in) simp
  then obtain p where p: "p \<in> set region" "highest (map fst region) = fst p"
    by auto
  with sub foreground_in_bounds [OF assms(1,2), of p] show "highest (map fst region) < W"
    by auto
  from ne have "highest (map snd region) \<in> set (map snd region)"
    by (intro highest_in) simp
  then obtain q where q: "q \<in> set region" "highest (map snd region) = snd q"
    by auto
  with sub foreground_in_bounds [OF assms(1,2), of q] show "highest (map snd region) < H"
    by auto
  from p show "lowest (map fst region) \<le> highest (map fst region)"
    by (intro highest_ge lowest_in) (use ne in simp)
  from q show "lowest (map snd region) \<le> highest (map snd region)"
    by (intro highest_ge lowest_in) (use ne in simp)
qed

lemma label_scan_pairs:
  assumes "a < b" and "b < length (label_scan c (scan P img))"
  shows "(\<exists>p \<in> set (label_scan c (scan P img) ! a).
            \<forall>q \<in> set (label_scan c (scan P img) ! b). scanned_before p q) \<and>
         set (label_scan c (scan P img) ! a) \<inter> set (label_scan c (scan P img) ! b) = {}"
  using label_scan_order [OF scan_sorted, where c = c and P1 = P and img1 = img] assms
  by (simp add: sorted_wrt_iff_nth_less)

lemma linked_chain_sym: "(linked c S)\<^sup>*\<^sup>* p q \<Longrightarrow> (linked c S)\<^sup>*\<^sup>* q p"
proof (induction rule: rtranclp_induct)
  case base
  show ?case by simp
next
  case (step y z)
  from step.hyps(2) have "linked c S z y"
    by (simp add: linked_def adjacent_sym)
  from this step.IH show ?case
    by (rule converse_rtranclp_into_rtranclp)
qed

lemma flood_connected:
  "q \<in> set (flood c reached rest) \<Longrightarrow> set reached \<union> set rest \<subseteq> S \<Longrightarrow>
     \<exists>p \<in> set reached. (linked c S)\<^sup>*\<^sup>* p q"
proof (induction c reached rest rule: flood.induct)
  case (1 c reached rest)
  let ?new = "filter (\<lambda>q. list_ex (\<lambda>p. adjacent c p q) reached) rest"
  let ?rest = "filter (\<lambda>q. \<not> list_ex (\<lambda>p. adjacent c p q) reached) rest"
  show ?case
  proof (cases "?new = []")
    case True
    then have "flood c reached rest = reached"
      by (subst flood.simps) simp
    with "1.prems"(1) show ?thesis
      by auto
  next
    case False
    then have f: "flood c reached rest = flood c (reached @ ?new) ?rest"
      by (subst flood.simps) simp
    from "1.prems"(2) have "set (reached @ ?new) \<union> set ?rest \<subseteq> S"
      by auto
    from "1.IH" [OF False _ this] "1.prems"(1) obtain p' where
      p': "p' \<in> set (reached @ ?new)" "(linked c S)\<^sup>*\<^sup>* p' q"
      by (auto simp: f)
    show ?thesis
    proof (cases "p' \<in> set reached")
      case True
      with p'(2) show ?thesis
        by blast
    next
      case False
      with p'(1) obtain p where p: "p \<in> set reached" "adjacent c p p'" "p' \<in> set rest"
        by (auto simp: list_ex_iff)
      with "1.prems"(2) have "linked c S p p'"
        by (auto simp: linked_def)
      from this p'(2) have "(linked c S)\<^sup>*\<^sup>* p q"
        by (rule converse_rtranclp_into_rtranclp)
      with p(1) show ?thesis
        by blast
    qed
  qed
qed

lemma label_scan_connected:
  "region \<in> set (label_scan c ps) \<Longrightarrow> set ps \<subseteq> S \<Longrightarrow> p \<in> set region \<Longrightarrow>
     q \<in> set region \<Longrightarrow> (linked c S)\<^sup>*\<^sup>* p q"
proof (induction c ps rule: label_scan.induct)
  case (1 c)
  then show ?case by simp
next
  case (2 c p0 ps)
  show ?case
  proof (cases "region = flood c [p0] ps")
    case True
    from "2.prems"(2) have S: "set [p0] \<union> set ps \<subseteq> S"
      by simp
    from flood_connected [OF _ S] "2.prems"(3,4) True
    have "(linked c S)\<^sup>*\<^sup>* p0 p" and "(linked c S)\<^sup>*\<^sup>* p0 q"
      by auto
    from linked_chain_sym [OF this(1)] this(2) show ?thesis
      by (rule rtranclp_trans)
  next
    case False
    with "2.prems"(1)
    have "region \<in> set (label_scan c (filter (\<lambda>q. q \<notin> set (flood c [p0] ps)) ps))"
      by simp
    moreover from "2.prems"(2) have "set (filter (\<lambda>q. q \<notin> set (flood c [p0] ps)) ps) \<subseteq> S"
      by auto
    ultimately show ?thesis
      using "2.prems"(3,4) by (rule "2.IH")
  qed
qed

lemma shape_nth: "0 < length m \<Longrightarrow> shape m = [length m, length (m ! 0)]"
  by (cases m) (simp_all add: shape_def)

lemma analyze_mask_tif_mismatch:
  assumes "take 2 img_shape \<noteq> shape m"
  shows "\<exists>e. analyze_mask_tif spacing m (Some img_shape) = Inl e"
    and "length img_shape = 2 \<or> (length img_shape = 3 \<and> img_shape ! 2 = 3) \<Longrightarrow>
      analyze_mask_tif spacing m (Some img_shape) = Inl IndexError"
proof -
  show "\<exists>e. analyze_mask_tif spacing m (Some img_shape) = Inl e"
  proof (cases "analyze_mask_tif spacing m (Some img_shape)")
    case (Inl e)
    then show ?thesis by simp
  next
    case (Inr recs)
    from analyze_mask_tif_Inr(3) [OF Inr] assms show ?thesis
      by (simp add: draw_overlay_Inr length_shape)
  qed
  assume image: "length img_shape = 2 \<or> (length img_shape = 3 \<and> img_shape ! 2 = 3)"
  then obtain H W rest where "img_shape = H # W # rest"
    by (cases img_shape; cases "tl img_shape") auto
  with extract_tumor_info_two_dims [of spacing "binarize m" H W rest]
  obtain info where "extract_tumor_info spacing (binarize m) img_shape = Inr info"
    by auto
  moreover from assms image have "draw_overlay img_shape (shape m) = Inl IndexError"
    by (rule draw_overlay_mismatch)
  ultimately show "analyze_mask_tif spacing m (Some img_shape) = Inl IndexError"
    by (simp add: analyze_mask_tif_def Let_def shape_binarize)
qed

section \<open>Classification\<close>

text \<open>
  Claim C4. For every centroid \<open>(cx, cy)\<close>, inside the image or not, and every image
  shape whose first two entries are \<open>H\<close> and \<open>W\<close>, \<open>determine_lobe\<close> raises nothing and
  returns the band, the text " Lobe (", the hemisphere and the text " Hemisphere)". The
  hemisphere is "Left" exactly when \<open>cx < W/2\<close> and "Right" exactly when \<open>W/2 \<le> cx\<close>;
  the band is "Frontal" exactly when \<open>cy < H/3\<close>, "Parietal" exactly when
  \<open>H/3 \<le> cy < 2H/3\<close>, and "Occipital/Temporal" exactly when \<open>2H/3 \<le> cy\<close>.
\<close>

theorem determine_lobe_bands:
  "\<exists>band hemisphere.
     determine_lobe (cx, cy) (H # W # rest)
       = Inr (band @ '' Lobe ('' @ hemisphere @ '' Hemisphere)'') \<and>
     (hemisphere = ''Left'') = (cx < of_nat W / 2) \<and>
     (hemisphere = ''Right'') = (of_nat W / 2 \<le> cx) \<and>
     (band = ''Frontal'') = (cy < of_nat H / 3) \<and>
     (band = ''Parietal'') = (of_nat H / 3 \<le> cy \<and> cy < 2 * of_nat H / 3) \<and>
     (band = ''Occipital/Temporal'') = (2 * of_nat H / 3 \<le> cy)"
proof -
  let ?band = "if cy < of_nat H / 3 then ''Frontal''
               else if cy < 2 * of_nat H / 3 then ''Parietal'' else ''Occipital/Temporal''"
  let ?hemisphere = "if cx < of_nat W / 2 then ''Left'' else ''Right''"
  have third: "rat_of_nat H / 3 \<le> 2 * of_nat H / 3"
    by simp
  have "determine_lobe (cx, cy) (H # W # rest)
          = Inr (?band @ '' Lobe ('' @ ?hemisphere @ '' Hemisphere)'')"
    by (simp add: determine_lobe_two_dims)
  moreover have "(?hemisphere = ''Left'') = (cx < of_nat W / 2)"
    and "(?hemisphere = ''Right'') = (of_nat W / 2 \<le> cx)"
    by auto
  moreover have "(?band = ''Frontal'') = (cy < of_nat H / 3)"
    and "(?band = ''Parietal'') = (of_nat H / 3 \<le> cy \<and> cy < 2 * of_nat H / 3)"
    and "(?band = ''Occipital/Temporal'') = (2 * of_nat H / 3 \<le> cy)"
    using third by auto
  ultimately show ?thesis
    by blast
qed

text \<open>
  At the boundaries of a 12 by 10 image: \<open>cy = H/3\<close> is Parietal and \<open>cx = W/2\<close> is
  Right; just above \<open>H/3\<close> is Frontal, also for a centroid left of the image.
\<close>

theorem determine_lobe_bands_witness:
  "determine_lobe (5, 4) [12, 10] = Inr ''Parietal Lobe (Right Hemisphere)'' \<and>
   determine_lobe (-7, 39 / 10) [12, 10] = Inr ''Frontal Lobe (Left Hemisphere)'' \<and>
   determine_lobe (100, 8) [12, 10] = Inr ''Occipital/Temporal Lobe (Right Hemisphere)''"
  using determine_lobe_bands [of 5 4 12 10 "[]"]
    determine_lobe_bands [of "-7" "39 / 10" 12 10 "[]"]
    determine_lobe_bands [of 100 8 12 10 "[]"]
  by auto

section \<open>Binarization and masks without foreground\<close>

text \<open>
  Claim C10. Thresholding a thresholded grid changes nothing, and
  \<open>extract_tumor_info\<close> returns the same for a grid and for its thresholded form.
\<close>

theorem binarize_idempotent:
  "binarize (binarize m) = binarize m \<and>
   extract_tumor_info spacing (binarize m) img_shape = extract_tumor_info spacing m img_shape"
  by (simp add: binarize_idem extract_tumor_info_def)

theorem binarize_idempotent_witness:
  "binarize (binarize [[3 / 4, 1 / 2], [2, - 1]]) = [[1, 0], [1, 0]] \<and>
   extract_tumor_info PIXEL_SPACING [[1, 0], [1, 0]] [2, 2]
     = extract_tumor_info PIXEL_SPACING [[3 / 4, 1 / 2], [2, - 1]] [2, 2]"
proof -
  have b: "binarize [[3 / 4, 1 / 2], [2, - 1]] = [[1, 0], [1, 0]]"
    by (simp add: binarize_def)
  show ?thesis
    using binarize_idempotent [of "[[3 / 4, 1 / 2], [2, - 1]]" PIXEL_SPACING "[2, 2]"]
    by (simp add: b)
qed

text \<open>
  Claim C8. When no element of the mask exceeds 0.5, the measurement returns seven empty
  arrays and no error, whatever the spacing and the image shape it is given, and
  \<open>analyze_mask_tif\<close> returns the empty list of tumors and no error, both without a
  reference image and with one of the mask's shape.
\<close>

theorem no_foreground_no_records:
  assumes "\<forall>row \<in> set m. \<forall>v \<in> set row. v \<le> 1 / 2"
  shows "extract_tumor_info spacing m img_shape =
           Inr \<lparr>tumor_sizes_px = [], tumor_sizes_mm2 = [], tumor_bboxes = [],
                tumor_centroids = [], tumor_heights_mm = [], tumor_widths_mm = [],
                tumor_locations = []\<rparr> \<and>
         analyze_mask_tif spacing m None = Inr [] \<and>
         analyze_mask_tif spacing m (Some (shape m)) = Inr []"
proof -
  note empty = foreground_binarize_empty [OF assms]
  have e: "extract_tumor_info spacing (binarize m) s =
           Inr \<lparr>tumor_sizes_px = [], tumor_sizes_mm2 = [], tumor_bboxes = [],
                tumor_centroids = [], tumor_heights_mm = [], tumor_widths_mm = [],
                tumor_locations = []\<rparr>" for s
    using empty
    by (simp add: extract_tumor_info_def connectedComponentsWithStats_def binarize_idem Let_def)
  have "extract_tumor_info spacing m img_shape =
           Inr \<lparr>tumor_sizes_px = [], tumor_sizes_mm2 = [], tumor_bboxes = [],
                tumor_centroids = [], tumor_heights_mm = [], tumor_widths_mm = [],
                tumor_locations = []\<rparr>"
    using empty
    by (simp add: extract_tumor_info_def connectedComponentsWithStats_def Let_def)
  moreover have "analyze_mask_tif spacing m None = Inr []"
    by (simp add: analyze_mask_tif_def Let_def e shape_binarize draw_overlay_shape
        zip_records_def)
  moreover have "analyze_mask_tif spacing m (Some (shape m)) = Inr []"
    by (simp add: analyze_mask_tif_def Let_def e shape_binarize draw_overlay_shape
        zip_records_def)
  ultimately show ?thesis
    by blast
qed

theorem no_foreground_no_records_witness:
  "analyze_mask_tif PIXEL_SPACING [[0, 1 / 2], [- 3, 1 / 4]] None = Inr [] \<and>
   analyze_mask_tif PIXEL_SPACING [[0, 1 / 2], [- 3, 1 / 4]] (Some [2, 2]) = Inr []"
proof -
  have h: "\<forall>row \<in> set [[0, 1 / 2], [- 3, 1 / 4 :: rat]]. \<forall>v \<in> set row. v \<le> 1 / 2"
    by simp
  have s: "shape [[0, 1 / 2], [- 3, 1 / 4]] = [2, 2]"
    by (simp add: shape_def)
  from no_foreground_no_records [OF h, of PIXEL_SPACING "[]"] show ?thesis
    by (simp add: s)
qed

section \<open>Physical units\<close>

text \<open>
  Claim C5. For a positive spacing, every tumor's area in square millimetres is its
  pixel area times the square of the spacing, and its height and width in millimetres are
  the height and width of its bounding box times the spacing. With twice the spacing and
  the same mask, every area is four times and every height and width twice as large, and
  nothing else changes.
\<close>

theorem physical_units:
  assumes "0 < spacing" and "analyze_mask_tif spacing m original_image = Inr recs"
  shows "(\<forall>r \<in> set recs.
            area_mm2 r = of_nat (area_px r) * spacing ^ 2 \<and>
            height_mm r = of_nat (bbox_px r ! 3) * spacing \<and>
            width_mm r = of_nat (bbox_px r ! 2) * spacing) \<and>
         analyze_mask_tif (2 * spacing) m original_image =
           Inr (map (\<lambda>r. r\<lparr>area_mm2 := 4 * area_mm2 r, height_mm := 2 * height_mm r,
                             width_mm := 2 * width_mm r\<rparr>) recs)"
proof -
  note r = analyze_mask_tif_Inr(1) [OF assms(2)]
  have ok: "\<forall>ps \<in> set (label_scan Conn8 (foreground (binarize m))).
      \<exists>l. determine_lobe (centroid_row ps)
             (case original_image of Some s \<Rightarrow> s | None \<Rightarrow> shape m) = Inr l"
    using analyze_mask_tif_Inr(2) [OF assms(2)] by blast
  have "\<forall>r \<in> set recs.
            area_mm2 r = of_nat (area_px r) * spacing ^ 2 \<and>
            height_mm r = of_nat (bbox_px r ! 3) * spacing \<and>
            width_mm r = of_nat (bbox_px r ! 2) * spacing"
    by (subst r) (simp add: stats_row_def CC_STAT_HEIGHT_def CC_STAT_WIDTH_def)
  moreover have "analyze_mask_tif (2 * spacing) m original_image =
           Inr (map (\<lambda>r. r\<lparr>area_mm2 := 4 * area_mm2 r, height_mm := 2 * height_mm r,
                             width_mm := 2 * width_mm r\<rparr>) recs)"
    by (subst r, subst analyze_mask_tif_total [OF ok analyze_mask_tif_Inr(3) [OF assms(2)]])
      (simp add: power2_eq_square)
  ultimately show ?thesis
    by blast
qed

theorem physical_units_witness:
  "(0 :: rat) < 3 / 2 \<and>
   analyze_mask_tif (3 / 2) [[0, 1, 1], [0, 0, 1]] None =
     Inr [\<lparr>area_px = 3, area_mm2 = 27 / 4, bbox_px = [1, 0, 2, 2],
            centroid_px = (5 / 3, 1 / 3), height_mm = 3, width_mm = 3,
            region_label = ''Frontal Lobe (Right Hemisphere)''\<rparr>] \<and>
   analyze_mask_tif (2 * (3 / 2)) [[0, 1, 1], [0, 0, 1]] None =
     Inr [\<lparr>area_px = 3, area_mm2 = 27, bbox_px = [1, 0, 2, 2],
            centroid_px = (5 / 3, 1 / 3), height_mm = 6, width_mm = 6,
            region_label = ''Frontal Lobe (Right Hemisphere)''\<rparr>]"
proof -
  have p: "(0 :: rat) < 3 / 2"
    by simp
  have a: "analyze_mask_tif (3 / 2) [[0, 1, 1], [0, 0, 1]] None =
     Inr [\<lparr>area_px = 3, area_mm2 = 27 / 4, bbox_px = [1, 0, 2, 2],
            centroid_px = (5 / 3, 1 / 3), height_mm = 3, width_mm = 3,
            region_label = ''Frontal Lobe (Right Hemisphere)''\<rparr>]"
    by code_simp
  show ?thesis
    using p a physical_units [OF p a] by simp
qed

text \<open>
  Claim C3 says that a spacing of 0 or below makes the conversion fail with
  InvalidConfiguration. The source has no such check: with the spacing set to 0 and to
  -1, the one-pixel mask is measured and the results are returned.
\<close>

theorem spacing_not_validated_counterexample:
  "extract_tumor_info 0 [[1]] [1, 1] =
     Inr \<lparr>tumor_sizes_px = [1], tumor_sizes_mm2 = [0], tumor_bboxes = [[0, 0, 1, 1]],
          tumor_centroids = [(0, 0)], tumor_heights_mm = [0], tumor_widths_mm = [0],
          tumor_locations = [''Frontal Lobe (Left Hemisphere)'']\<rparr> \<and>
   extract_tumor_info (- 1) [[1]] [1, 1] =
     Inr \<lparr>tumor_sizes_px = [1], tumor_sizes_mm2 = [1], tumor_bboxes = [[0, 0, 1, 1]],
          tumor_centroids = [(0, 0)], tumor_heights_mm = [- 1], tumor_widths_mm = [- 1],
          tumor_locations = [''Frontal Lobe (Left Hemisphere)'']\<rparr>"
  by code_simp

text \<open>
  Claim C3, amended. The conversion checks nothing and never fails: for every spacing,
  positive or not, and every image shape of at least two entries, \<open>extract_tumor_info\<close>
  returns its arrays, with each area the pixel area times the square of the spacing and
  each height and width the pixel extent times the spacing. The spacing the source sets,
  \<open>PIXEL_SPACING\<close>, is positive.
\<close>

theorem conversion_never_fails:
  "0 < PIXEL_SPACING \<and>
   (\<exists>info. extract_tumor_info spacing m (H # W # rest) = Inr info \<and>
      tumor_sizes_mm2 info = map (\<lambda>a. of_nat a * spacing ^ 2) (tumor_sizes_px info) \<and>
      tumor_heights_mm info = map (\<lambda>b. of_nat (b ! 3) * spacing) (tumor_bboxes info) \<and>
      tumor_widths_mm info = map (\<lambda>b. of_nat (b ! 2) * spacing) (tumor_bboxes info))"
proof -
  have "comprehension (\<lambda>centroid. determine_lobe centroid (H # W # rest)) cs
          = Inr (map (\<lambda>c. projr (determine_lobe c (H # W # rest))) cs)" for cs
    by (rule comprehension_total) (metis determine_lobe_no_error)
  then show ?thesis
    by (simp add: extract_tumor_info_def connectedComponentsWithStats_def Let_def
        PIXEL_SPACING_def drop_map o_def stats_row_def CC_STAT_HEIGHT_def CC_STAT_WIDTH_def)
qed

theorem conversion_never_fails_witness:
  "\<exists>info. extract_tumor_info (- 1) [[1]] [1, 1] = Inr info \<and>
      tumor_sizes_mm2 info = map (\<lambda>a. of_nat a * (- 1) ^ 2) (tumor_sizes_px info)"
  using conversion_never_fails [of "- 1" "[[1]]" 1 1 "[]"] by blast

section \<open>The reference image\<close>

text \<open>
  Claim C1. In every run that completes, with a reference image or without, the tumors
  of the result have the centroids of the labels from 1 on, in label order; the label of
  each is \<open>determine_lobe\<close> of its centroid and of the mask's own shape; and the result
  is the one that the same mask gives without a reference image.
\<close>

theorem label_from_mask_shape:
  assumes "analyze_mask_tif spacing m original_image = Inr recs"
  shows "map centroid_px recs
           = drop 1 (snd (snd (snd (connectedComponentsWithStats (binarize m))))) \<and>
         (\<forall>r \<in> set recs. determine_lobe (centroid_px r) (shape m) = Inr (region_label r)) \<and>
         analyze_mask_tif spacing m None = Inr recs"
proof -
  have "map centroid_px recs
           = drop 1 (snd (snd (snd (connectedComponentsWithStats (binarize m)))))"
    by (subst analyze_mask_tif_Inr(1) [OF assms])
      (simp add: connectedComponentsWithStats_def Let_def o_def)
  with analyze_mask_tif_no_reference [OF assms] show ?thesis
    by blast
qed

text \<open>
  A 4 by 4 mask with an RGB reference image of 4 by 4 pixels: the tumor at \<open>(3, 1)\<close> is
  labelled against the mask's shape, and the result is that of the mask alone.
\<close>

theorem label_from_mask_shape_witness:
  "analyze_mask_tif PIXEL_SPACING [[0, 0, 0, 0], [0, 0, 0, 1], [0, 0, 0, 0], [0, 0, 0, 0]]
       (Some [4, 4, 3]) =
     Inr [\<lparr>area_px = 1, area_mm2 = 1 / 4, bbox_px = [3, 1, 1, 1], centroid_px = (3, 1),
            height_mm = 1 / 2, width_mm = 1 / 2,
            region_label = ''Frontal Lobe (Right Hemisphere)''\<rparr>] \<and>
   analyze_mask_tif PIXEL_SPACING [[0, 0, 0, 0], [0, 0, 0, 1], [0, 0, 0, 0], [0, 0, 0, 0]]
       None =
     Inr [\<lparr>area_px = 1, area_mm2 = 1 / 4, bbox_px = [3, 1, 1, 1], centroid_px = (3, 1),
            height_mm = 1 / 2, width_mm = 1 / 2,
            region_label = ''Frontal Lobe (Right Hemisphere)''\<rparr>] \<and>
   determine_lobe (3, 1) (shape [[0, 0, 0, 0], [0, 0, 0, 1], [0, 0, 0, 0], [0, 0, 0, 0]]) =
     Inr ''Frontal Lobe (Right Hemisphere)''"
proof -
  have a: "analyze_mask_tif PIXEL_SPACING
       [[0, 0, 0, 0], [0, 0, 0, 1], [0, 0, 0, 0], [0, 0, 0, 0]] (Some [4, 4, 3]) =
     Inr [\<lparr>area_px = 1, area_mm2 = 1 / 4, bbox_px = [3, 1, 1, 1], centroid_px = (3, 1),
            height_mm = 1 / 2, width_mm = 1 / 2,
            region_label = ''Frontal Lobe (Right Hemisphere)''\<rparr>]"
    by code_simp
  show ?thesis
    using a label_from_mask_shape [OF a] by simp
qed

text \<open>
  Claim C2 says that a reference image whose shape differs from the mask's makes the
  analysis fail with ShapeMismatch. The source compares no shapes and defines no such
  error. It measures the mask first; the run then ends in the drawing of the overlay,
  with numpy's \<open>IndexError\<close>: so for a 20 by 20 mask with a 10 by 10 reference image, and
  for the tumor at \<open>(3, 1)\<close> of a 4 by 4 mask with a reference image of 8 by 8.
\<close>

theorem shape_mismatch_counterexample:
  "analyze_mask_tif PIXEL_SPACING
       ((replicate 20 (replicate 20 0))[12 := (replicate 20 0)[12 := 1]]) (Some [10, 10])
     = Inl IndexError \<and>
   analyze_mask_tif PIXEL_SPACING [[0, 0, 0, 0], [0, 0, 0, 1], [0, 0, 0, 0], [0, 0, 0, 0]]
       (Some [8, 8]) = Inl IndexError"
proof -
  have "shape ((replicate 20 (replicate 20 0))[12 := (replicate 20 0)[12 := 1 :: rat]])
          = [20, 20]"
    by (simp add: shape_nth)
  then have "take 2 [10, 10] \<noteq>
      shape ((replicate 20 (replicate 20 0))[12 := (replicate 20 0)[12 := 1 :: rat]])"
    by simp
  then have "analyze_mask_tif PIXEL_SPACING
       ((replicate 20 (replicate 20 0))[12 := (replicate 20 0)[12 := 1]]) (Some [10, 10])
     = Inl IndexError"
    by (rule analyze_mask_tif_mismatch(2)) simp
  moreover have "analyze_mask_tif PIXEL_SPACING
       [[0, 0, 0, 0], [0, 0, 0, 1], [0, 0, 0, 0], [0, 0, 0, 0]] (Some [8, 8]) = Inl IndexError"
    by code_simp
  ultimately show ?thesis
    by (rule conjI)
qed

text \<open>
  Claim C2, amended. For every mask and every supplied reference image whose first two
  dimensions are not the mask's shape, the analysis ends in an exception and returns no
  tumors. The exception is not ShapeMismatch, which the source does not have, but that
  of a library call: \<open>IndexError\<close>, from the drawing of the overlay, when the reference
  image is a 2-D or an RGB image.
\<close>

theorem shape_mismatch_raises:
  assumes "take 2 img_shape \<noteq> shape m"
  shows "(\<exists>e. analyze_mask_tif spacing m (Some img_shape) = Inl e) \<and>
         (length img_shape = 2 \<or> (length img_shape = 3 \<and> img_shape ! 2 = 3) \<longrightarrow>
            analyze_mask_tif spacing m (Some img_shape) = Inl IndexError)"
  using analyze_mask_tif_mismatch [OF assms] by blast

theorem shape_mismatch_raises_witness:
  "analyze_mask_tif PIXEL_SPACING [[0, 0], [0, 1]] (Some [10, 10, 3]) = Inl IndexError"
proof -
  have "take 2 [10, 10, 3] \<noteq> shape [[0, 0], [0, 1 :: rat]]"
    by (simp add: shape_def)
  from shape_mismatch_raises [OF this, of PIXEL_SPACING] show ?thesis
    by simp
qed

section \<open>Regions\<close>

text \<open>
  Claim C6. Label 0 is the background and is left out of the result. The tumor at
  position \<open>i\<close> of the result is the one of label \<open>i + 1\<close>, so the result starts at
  label 1 and goes up by label. Labels follow the row-major scan: of two labels
  \<open>1 \<le> a < b\<close>, label \<open>a\<close> has a pixel that the scan meets before every pixel of label
  \<open>b\<close>, and the two labels share no pixel.
\<close>

theorem labels_in_scan_order:
  assumes "analyze_mask_tif spacing m original_image = Inr recs"
    and "connectedComponentsWithStats (binarize m) = (num_labels, labels, stats, centroids)"
  shows "labels ! 0 = background (binarize m) \<and>
         length recs + 1 = num_labels \<and>
         (\<forall>i < length recs.
            area_px (recs ! i) = stats ! (i + 1) ! CC_STAT_AREA \<and>
            bbox_px (recs ! i) = take 4 (stats ! (i + 1)) \<and>
            centroid_px (recs ! i) = centroids ! (i + 1)) \<and>
         (\<forall>a b. 1 \<le> a \<and> a < b \<and> b < num_labels \<longrightarrow>
            (\<exists>p \<in> set (labels ! a). \<forall>q \<in> set (labels ! b). scanned_before p q) \<and>
            set (labels ! a) \<inter> set (labels ! b) = {})"
proof -
  let ?regions = "label_scan Conn8 (foreground (binarize m))"
  note recs = analyze_mask_tif_Inr(1) [OF assms(1)]
  from assms(2) have n: "num_labels = length ?regions + 1"
    and l: "labels = background (binarize m) # ?regions"
    and s: "stats = map stats_row (background (binarize m) # ?regions)"
    and c: "centroids = map centroid_row (background (binarize m) # ?regions)"
    by (auto simp: connectedComponentsWithStats_def Let_def)
  have len: "length recs = length ?regions"
    by (subst recs) simp
  have "labels ! 0 = background (binarize m)"
    by (simp add: l)
  moreover have "length recs + 1 = num_labels"
    by (simp add: n len)
  moreover have "area_px (recs ! i) = stats ! (i + 1) ! CC_STAT_AREA \<and>
            bbox_px (recs ! i) = take 4 (stats ! (i + 1)) \<and>
            centroid_px (recs ! i) = centroids ! (i + 1)" if "i < length recs" for i
    using that [unfolded len] by (subst (1 2 3) recs) (simp add: s c stats_row_nth(1))
  moreover have "(\<exists>p \<in> set (labels ! a). \<forall>q \<in> set (labels ! b). scanned_before p q) \<and>
            set (labels ! a) \<inter> set (labels ! b) = {}"
    if "1 \<le> a \<and> a < b \<and> b < num_labels" for a b
  proof -
    from that obtain a' b' where ab: "a = Suc a'" "b = Suc b'" "a' < b'" "b' < length ?regions"
      by (cases a; cases b) (auto simp: n)
    from label_scan_pairs [of a' b' Conn8 "\<lambda>v. v \<noteq> 0" "binarize m"] ab(3,4) show ?thesis
      by (simp add: l ab(1,2) foreground_def)
  qed
  ultimately show ?thesis
    by blast
qed

text \<open>
  Two 3 by 3 blocks with background between them: the block that starts in row 0 comes
  first, the block that starts in row 4 second, with bounding boxes that do not overlap;
  with the background these are three labels.
\<close>

theorem labels_in_scan_order_witness:
  "analyze_mask_tif PIXEL_SPACING
      [[0, 0, 0, 0, 1, 1, 1],
       [0, 0, 0, 0, 1, 1, 1],
       [0, 0, 0, 0, 1, 1, 1],
       [0, 0, 0, 0, 0, 0, 0],
       [1, 1, 1, 0, 0, 0, 0],
       [1, 1, 1, 0, 0, 0, 0],
       [1, 1, 1, 0, 0, 0, 0]] None =
     Inr [\<lparr>area_px = 9, area_mm2 = 9 / 4, bbox_px = [4, 0, 3, 3], centroid_px = (5, 1),
            height_mm = 3 / 2, width_mm = 3 / 2,
            region_label = ''Frontal Lobe (Right Hemisphere)''\<rparr>,
          \<lparr>area_px = 9, area_mm2 = 9 / 4, bbox_px = [0, 4, 3, 3], centroid_px = (1, 5),
            height_mm = 3 / 2, width_mm = 3 / 2,
            region_label = ''Occipital/Temporal Lobe (Left Hemisphere)''\<rparr>] \<and>
   fst (connectedComponentsWithStats (binarize
      [[0, 0, 0, 0, 1, 1, 1],
       [0, 0, 0, 0, 1, 1, 1],
       [0, 0, 0, 0, 1, 1, 1],
       [0, 0, 0, 0, 0, 0, 0],
       [1, 1, 1, 0, 0, 0, 0],
       [1, 1, 1, 0, 0, 0, 0],
       [1, 1, 1, 0, 0, 0, 0]])) = 3"
proof -
  let ?m = "[[0, 0, 0, 0, 1, 1, 1],
       [0, 0, 0, 0, 1, 1, 1],
       [0, 0, 0, 0, 1, 1, 1],
       [0, 0, 0, 0, 0, 0, 0],
       [1, 1, 1, 0, 0, 0, 0],
       [1, 1, 1, 0, 0, 0, 0],
       [1, 1, 1, 0, 0, 0, 0 :: rat]]"
  let ?cc = "connectedComponentsWithStats (binarize ?m)"
  have a: "analyze_mask_tif PIXEL_SPACING ?m None =
     Inr [\<lparr>area_px = 9, area_mm2 = 9 / 4, bbox_px = [4, 0, 3, 3], centroid_px = (5, 1),
            height_mm = 3 / 2, width_mm = 3 / 2,
            region_label = ''Frontal Lobe (Right Hemisphere)''\<rparr>,
          \<lparr>area_px = 9, area_mm2 = 9 / 4, bbox_px = [0, 4, 3, 3], centroid_px = (1, 5),
            height_mm = 3 / 2, width_mm = 3 / 2,
            region_label = ''Occipital/Temporal Lobe (Left Hemisphere)''\<rparr>]"
    by code_simp
  have c: "?cc = (fst ?cc, fst (snd ?cc), fst (snd (snd ?cc)), snd (snd (snd ?cc)))"
    by simp
  from labels_in_scan_order [OF a c] have "fst ?cc = 3"
    by simp
  with a show ?thesis
    by (rule conjI)
qed

text \<open>
  Claim C7 says that the connectivity is an option of the extraction, 4 or 8, and that
  another value raises InvalidConfiguration. The source calls the labelling with the mask
  alone: two pixels that touch at a corner are always one tumor, and the two regions that
  4-connectivity gives for them cannot be asked for.
\<close>

theorem connectivity_not_configurable_counterexample:
  "analyze_mask_tif PIXEL_SPACING [[1, 0], [0, 1]] None =
     Inr [\<lparr>area_px = 2, area_mm2 = 1 / 2, bbox_px = [0, 0, 2, 2],
            centroid_px = (1 / 2, 1 / 2), height_mm = 1, width_mm = 1,
            region_label = ''Frontal Lobe (Left Hemisphere)''\<rparr>] \<and>
   label_scan Conn4 (foreground (binarize [[1, 0], [0, 1]])) = [[(0, 0)], [(1, 1)]]"
  by code_simp

text \<open>
  Claim C7, amended. The extraction always groups by 8-connectivity, with no
  connectivity option and no InvalidConfiguration. The tumors are the labels from 1 on;
  the foreground is the set of pixels above 0.5; two foreground pixels that touch along
  an edge or at a corner have the same label; and any two pixels of one label are joined
  by a chain of such neighbours inside the foreground.
\<close>

theorem eight_connected_regions:
  assumes "extract_tumor_info spacing m img_shape = Inr info"
    and "connectedComponentsWithStats (binarize m) = (num_labels, labels, stats, centroids)"
  shows "tumor_sizes_px info = map length (drop 1 labels) \<and>
     set (foreground (binarize m)) =
       {(x, y). y < length m \<and> x < length (m ! y) \<and> m ! y ! x > 1 / 2} \<and>
     (\<forall>p q. p \<in> set (foreground (binarize m)) \<and> q \<in> set (foreground (binarize m)) \<and>
        adjacent Conn8 p q \<longrightarrow>
        (\<exists>l. 1 \<le> l \<and> l < num_labels \<and> p \<in> set (labels ! l) \<and> q \<in> set (labels ! l))) \<and>
     (\<forall>l p q. 1 \<le> l \<and> l < num_labels \<and> p \<in> set (labels ! l) \<and> q \<in> set (labels ! l) \<longrightarrow>
        (linked Conn8 (set (foreground (binarize m))))\<^sup>*\<^sup>* p q)"
proof -
  let ?regions = "label_scan Conn8 (foreground (binarize m))"
  from assms(2) have n: "num_labels = length ?regions + 1"
    and l: "labels = background (binarize m) # ?regions"
    by (auto simp: connectedComponentsWithStats_def Let_def)
  from assms(1) have "tumor_sizes_px info = map length (drop 1 labels)"
    by (auto simp: extract_tumor_info_def connectedComponentsWithStats_def Let_def drop_map
        o_def stats_row_nth(1) binarize_idem l split: sum.splits)
  moreover have "\<exists>l. 1 \<le> l \<and> l < num_labels \<and> p \<in> set (labels ! l) \<and> q \<in> set (labels ! l)"
    if p: "p \<in> set (foreground (binarize m))" and q: "q \<in> set (foreground (binarize m))"
      and pq: "adjacent Conn8 p q" for p q
  proof -
    from label_scan_cover [OF p, of Conn8] obtain region where
      r: "region \<in> set ?regions" "p \<in> set region"
      by blast
    from label_scan_closed [OF r q pq] have "q \<in> set region" .
    moreover from r(1) obtain k where k: "k < length ?regions" "?regions ! k = region"
      by (auto simp: in_set_conv_nth)
    ultimately have "1 \<le> Suc k \<and> Suc k < num_labels \<and> p \<in> set (labels ! Suc k) \<and>
        q \<in> set (labels ! Suc k)"
      using r(2) by (simp add: n l)
    then show ?thesis
      by blast
  qed
  moreover have "(linked Conn8 (set (foreground (binarize m))))\<^sup>*\<^sup>* p q"
    if "1 \<le> k \<and> k < num_labels \<and> p \<in> set (labels ! k) \<and> q \<in> set (labels ! k)" for k p q
  proof -
    from that obtain k' where k: "k = Suc k'" "k' < length ?regions"
      by (cases k) (auto simp: n)
    with that have "?regions ! k' \<in> set ?regions" "p \<in> set (?regions ! k')"
        "q \<in> set (?regions ! k')"
      by (simp_all add: l)
    from label_scan_connected [OF this(1) subset_refl this(2,3)] show ?thesis .
  qed
  ultimately show ?thesis
    using set_foreground_binarize [of m] by blast
qed

theorem eight_connected_regions_witness:
  "\<exists>l. (0, 0) \<in> set (fst (snd (connectedComponentsWithStats (binarize [[1, 0], [0, 1]]))) ! l) \<and>
        (1, 1) \<in> set (fst (snd (connectedComponentsWithStats (binarize [[1, 0], [0, 1]]))) ! l) \<and>
        1 \<le> l"
proof -
  let ?cc = "connectedComponentsWithStats (binarize [[1, 0], [0, 1]])"
  have e: "extract_tumor_info PIXEL_SPACING [[1, 0], [0, 1]] [2, 2] =
     Inr \<lparr>tumor_sizes_px = [2], tumor_sizes_mm2 = [1 / 2], tumor_bboxes = [[0, 0, 2, 2]],
          tumor_centroids = [(1 / 2, 1 / 2)], tumor_heights_mm = [1], tumor_widths_mm = [1],
          tumor_locations = [''Frontal Lobe (Left Hemisphere)'']\<rparr>"
    by code_simp
  have c: "?cc = (fst ?cc, fst (snd ?cc), fst (snd (snd ?cc)), snd (snd (snd ?cc)))"
    by simp
  have f: "(0, 0) \<in> set (foreground (binarize [[1, 0], [0, 1]]))"
      "(1, 1) \<in> set (foreground (binarize [[1, 0], [0, 1]]))"
    by (simp_all add: set_foreground_binarize)
  have a: "adjacent Conn8 (0, 0) (1, 1)"
    by (simp add: adjacent_def gap_def)
  from eight_connected_regions [OF e c] f a show ?thesis
    by blast
qed

text \<open>
  Claim C9. For a rectangular mask of shape \<open>H\<close> by \<open>W\<close>, the tumor at position \<open>i\<close> of
  the result is that of label \<open>i + 1\<close>, a label of the image other than 0; its pixel area
  is positive; its bounding box \<open>[x, y, w, h]\<close> has positive width and height and lies
  within \<open>[0, W) \<times> [0, H)\<close>; and its centroid lies within the bounding box.
\<close>

theorem region_invariants:
  assumes "rectangular m" and "shape m = [H, W]"
    and "analyze_mask_tif spacing m original_image = Inr recs"
    and "i < length recs"
  shows "\<exists>x y w h.
     i + 1 < fst (connectedComponentsWithStats (binarize m)) \<and>
     area_px (recs ! i) = length (fst (snd (connectedComponentsWithStats (binarize m))) ! (i + 1)) \<and>
     0 < area_px (recs ! i) \<and>
     bbox_px (recs ! i) = [x, y, w, h] \<and> 0 < w \<and> 0 < h \<and> x + w \<le> W \<and> y + h \<le> H \<and>
     of_nat x \<le> fst (centroid_px (recs ! i)) \<and> fst (centroid_px (recs ! i)) < of_nat (x + w) \<and>
     of_nat y \<le> snd (centroid_px (recs ! i)) \<and> snd (centroid_px (recs ! i)) < of_nat (y + h)"
proof -
  let ?regions = "label_scan Conn8 (foreground (binarize m))"
  let ?r = "?regions ! i"
  let ?xs = "map fst ?r" and ?ys = "map snd ?r"
  note recs = analyze_mask_tif_Inr(1) [OF assms(3)]
  from assms(4) have i: "i < length ?regions"
    by (subst (asm) recs) simp
  then have r: "?r \<in> set ?regions"
    by simp
  have rect: "rectangular (binarize m)" and shp: "shape (binarize m) = [H, W]"
    using assms(1,2) by (simp_all add: rectangular_binarize shape_binarize)
  note g = region_geometry [OF rect shp r]
  from g(1) have xs: "?xs \<noteq> []" and ys: "?ys \<noteq> []"
    by simp_all
  have ri: "recs ! i =
      \<lparr>area_px = length ?r, area_mm2 = of_nat (length ?r) * spacing ^ 2,
       bbox_px = take 4 (stats_row ?r), centroid_px = centroid_row ?r,
       height_mm = of_nat (stats_row ?r ! CC_STAT_HEIGHT) * spacing,
       width_mm = of_nat (stats_row ?r ! CC_STAT_WIDTH) * spacing,
       region_label = projr (determine_lobe (centroid_row ?r)
         (case original_image of Some s \<Rightarrow> s | None \<Rightarrow> shape m))\<rparr>"
    using i by (subst recs) simp
  have cx: "rat_of_nat (lowest ?xs) \<le> fst (centroid_row ?r)"
      "fst (centroid_row ?r) \<le> of_nat (highest ?xs)"
    using mean_bounds [OF xs] by (simp_all add: centroid_row_def)
  have cy: "rat_of_nat (lowest ?ys) \<le> snd (centroid_row ?r)"
      "snd (centroid_row ?r) \<le> of_nat (highest ?ys)"
    using mean_bounds [OF ys] by (simp_all add: centroid_row_def)
  have "highest ?xs < lowest ?xs + (highest ?xs - lowest ?xs + 1)"
    using g(2) by linarith
  then have hx: "rat_of_nat (highest ?xs) < of_nat (lowest ?xs + (highest ?xs - lowest ?xs + 1))"
    by (rule iffD2 [OF of_nat_less_iff])
  have "highest ?ys < lowest ?ys + (highest ?ys - lowest ?ys + 1)"
    using g(3) by linarith
  then have hy: "rat_of_nat (highest ?ys) < of_nat (lowest ?ys + (highest ?ys - lowest ?ys + 1))"
    by (rule iffD2 [OF of_nat_less_iff])
  have "i + 1 < fst (connectedComponentsWithStats (binarize m))"
    using i by (simp add: connectedComponentsWithStats_def Let_def)
  moreover have "area_px (recs ! i)
      = length (fst (snd (connectedComponentsWithStats (binarize m))) ! (i + 1))"
    by (simp add: ri connectedComponentsWithStats_def Let_def)
  moreover have "0 < area_px (recs ! i)"
    using g(1) by (simp add: ri)
  moreover have "bbox_px (recs ! i) =
      [lowest ?xs, lowest ?ys, highest ?xs - lowest ?xs + 1, highest ?ys - lowest ?ys + 1]"
    by (simp add: ri stats_row_def)
  moreover have "lowest ?xs + (highest ?xs - lowest ?xs + 1) \<le> W"
    using g(2,4) by simp
  moreover have "lowest ?ys + (highest ?ys - lowest ?ys + 1) \<le> H"
    using g(3,5) by simp
  moreover have "of_nat (lowest ?xs) \<le> fst (centroid_px (recs ! i))"
    using cx(1) by (simp add: ri)
  moreover have "fst (centroid_px (recs ! i))
      < of_nat (lowest ?xs + (highest ?xs - lowest ?xs + 1))"
  proof -
    have "fst (centroid_row ?r) < of_nat (lowest ?xs + (highest ?xs - lowest ?xs + 1))"
      using cx(2) hx by (rule le_less_trans)
    then show ?thesis
      by (simp only: ri tumor_record.simps)
  qed
  moreover have "of_nat (lowest ?ys) \<le> snd (centroid_px (recs ! i))"
    using cy(1) by (simp add: ri)
  moreover have "snd (centroid_px (recs ! i))
      < of_nat (lowest ?ys + (highest ?ys - lowest ?ys + 1))"
  proof -
    have "snd (centroid_row ?r) < of_nat (lowest ?ys + (highest ?ys - lowest ?ys + 1))"
      using cy(2) hy by (rule le_less_trans)
    then show ?thesis
      by (simp only: ri tumor_record.simps)
  qed
  ultimately show ?thesis
    by (intro exI [of _ "lowest ?xs"] exI [of _ "lowest ?ys"]
        exI [of _ "highest ?xs - lowest ?xs + 1"] exI [of _ "highest ?ys - lowest ?ys + 1"])
      simp
qed

theorem region_invariants_witness:
  "analyze_mask_tif PIXEL_SPACING [[0, 1, 1], [0, 0, 1]] None =
     Inr [\<lparr>area_px = 3, area_mm2 = 3 / 4, bbox_px = [1, 0, 2, 2],
            centroid_px = (5 / 3, 1 / 3), height_mm = 1, width_mm = 1,
            region_label = ''Frontal Lobe (Right Hemisphere)''\<rparr>] \<and>
   (\<exists>x y w h. [1, 0, 2, 2] = [x, y, w, h] \<and> 0 < w \<and> 0 < h \<and> x + w \<le> 3 \<and> y + h \<le> 2 \<and>
      rat_of_nat x \<le> 5 / 3 \<and> 5 / 3 < rat_of_nat (x + w) \<and>
      rat_of_nat y \<le> 1 / 3 \<and> 1 / 3 < rat_of_nat (y + h))"
proof -
  have a: "analyze_mask_tif PIXEL_SPACING [[0, 1, 1], [0, 0, 1]] None =
     Inr [\<lparr>area_px = 3, area_mm2 = 3 / 4, bbox_px = [1, 0, 2, 2],
            centroid_px = (5 / 3, 1 / 3), height_mm = 1, width_mm = 1,
            region_label = ''Frontal Lobe (Right Hemisphere)''\<rparr>]"
    by code_simp
  have r: "rectangular [[0, 1, 1], [0, 0, 1]]"
    by (simp add: rectangular_def shape_def)
  have s: "shape [[0, 1, 1], [0, 0, 1]] = [2, 3]"
    by (simp add: shape_def)
  from region_invariants [OF r s a, of 0]
  have "\<exists>x y w h. [1, 0, 2, 2] = [x, y, w, h] \<and> 0 < w \<and> 0 < h \<and> x + w \<le> 3 \<and> y + h \<le> 2 \<and>
      rat_of_nat x \<le> 5 / 3 \<and> 5 / 3 < rat_of_nat (x + w) \<and>
      rat_of_nat y \<le> 1 / 3 \<and> 1 / 3 < rat_of_nat (y + h)"
    by simp
  with a show ?thesis
    by (rule conjI)
qed

end
